theory Spec2Isabelle
  imports Main
begin

section \<open>Python values and outcomes\<close>

text \<open>
  The module \<^verbatim>\<open>tab_bar.py\<close> is embedded function by function. A Python \<^verbatim>\<open>str\<close> is a
  \<^typ>\<open>string\<close>, one \<^typ>\<open>char\<close> per code point (\<^verbatim>\<open>len\<close> counts code points); the
  private-use glyphs of the source are single code points and are represented by one
  stand-in character each. Python integers are \<^typ>\<open>int\<close>.

  A call either returns a value, raises, or does not return at all.
\<close>

datatype py_exception = IndexError | TypeError | AttributeError

datatype failure = Raise py_exception | Diverge

type_synonym 'a result = "failure + 'a"

definition rbind :: "'a result \<Rightarrow> ('a \<Rightarrow> 'b result) \<Rightarrow> 'b result" where
  "rbind m f = (case m of Inl e \<Rightarrow> Inl e | Inr v \<Rightarrow> f v)"

text \<open>\<^verbatim>\<open>xs[i]\<close>: a negative index counts from the end, out of range raises.\<close>

definition py_index :: "'a list \<Rightarrow> int \<Rightarrow> 'a result" where
  "py_index xs i =
     (if 0 \<le> i \<and> i < int (length xs) then Inr (xs ! nat i)
      else if i < 0 \<and> - int (length xs) \<le> i then Inr (xs ! nat (int (length xs) + i))
      else Inl (Raise IndexError))"

section \<open>The host's drawing surface\<close>

text \<open>
  \<^verbatim>\<open>Screen\<close> belongs to the host (kitty). Its interface is a cursor with a column, style
  flags and two colours, a column count, and \<^verbatim>\<open>draw(text)\<close>, which writes the glyphs of
  \<^verbatim>\<open>text\<close> with the cursor's current style and advances the cursor one column per glyph.
\<close>

record glyph =
  g_col :: int
  g_char :: char
  g_fg :: int
  g_bg :: int
  g_bold :: bool

record screen =
  columns :: int
  cursor_x :: int
  cursor_dim :: bool
  cursor_bold :: bool
  cursor_italic :: bool
  cursor_fg :: int
  cursor_bg :: int
  grid :: "glyph list"

fun screen_draw :: "screen \<Rightarrow> string \<Rightarrow> screen" where
  "screen_draw s [] = s"
| "screen_draw s (c # cs) =
     screen_draw
       (s\<lparr>grid := grid s @ [\<lparr>g_col = cursor_x s, g_char = c, g_fg = cursor_fg s,
                                g_bg = cursor_bg s, g_bold = cursor_bold s\<rparr>],
          cursor_x := cursor_x s + 1\<rparr>) cs"

section \<open>Tab metadata\<close>

record tab =
  tab_id :: int
  title :: string
  is_active :: bool
  session_name :: string

section \<open>Cell\<close>

text \<open>The glyphs U+E0B0, U+E0B6 and U+E0B4 of the default separator and borders.\<close>

definition glyph_E0B0 :: char where "glyph_E0B0 = CHR 0xB0"
definition glyph_E0B6 :: char where "glyph_E0B6 = CHR 0xB6"
definition glyph_E0B4 :: char where "glyph_E0B4 = CHR 0xB4"

definition default_separator :: string where
  "default_separator = [glyph_E0B0]"

definition default_border :: "string \<times> string" where
  "default_border = ([glyph_E0B6], [glyph_E0B4])"

text \<open>
  A text provider maps the width left for the label and the cell's tab to \<^verbatim>\<open>None\<close>
  (hidden), \<^verbatim>\<open>""\<close> (icon only) or a label.
\<close>

type_synonym text_fn = "int \<Rightarrow> tab option \<Rightarrow> string option result"

record cell =
  c_tab :: "tab option"
  c_fg :: int
  c_bg :: int
  c_color :: int
  c_icon :: string
  c_text_fn :: text_fn
  c_border :: "string \<times> string"
  c_separator :: string
  text_length_overhead :: int

text \<open>\<^verbatim>\<open>Cell.__init__\<close>\<close>

definition Cell :: "string \<Rightarrow> text_fn \<Rightarrow> tab option \<Rightarrow> int \<Rightarrow> int \<Rightarrow> int \<Rightarrow> string
                    \<Rightarrow> string \<times> string \<Rightarrow> cell" where
  "Cell icon text_fn tb bg fg color separator border =
     \<lparr>c_tab = tb, c_fg = fg, c_bg = bg, c_color = color, c_icon = icon,
      c_text_fn = text_fn, c_border = border, c_separator = separator,
      text_length_overhead =
        int (length (fst border @ snd border @ separator @ icon)) + 1\<rparr>"

text \<open>\<^verbatim>\<open>Cell.draw\<close>\<close>

definition cell_draw :: "cell \<Rightarrow> screen \<Rightarrow> int \<Rightarrow> screen result" where
  "cell_draw self scr max_size =
     rbind (c_text_fn self (max_size - text_length_overhead self) (c_tab self))
       (\<lambda>text.
          case text of
            None \<Rightarrow> Inr scr
          | Some text \<Rightarrow>
              let s = scr\<lparr>cursor_dim := False, cursor_bold := False, cursor_italic := False\<rparr>;
                  s = s\<lparr>cursor_bg := 0, cursor_fg := c_color self\<rparr>;
                  s = screen_draw s (fst (c_border self));
                  s = s\<lparr>cursor_bg := c_color self, cursor_fg := c_bg self, cursor_bold := True\<rparr>;
                  s = screen_draw s (c_icon self);
                  s = s\<lparr>cursor_bold := False\<rparr>
              in if text = []
                 then
                   let s = s\<lparr>cursor_bg := 0, cursor_fg := c_color self\<rparr>
                   in Inr (screen_draw s (snd (c_border self)))
                 else
                   let s = s\<lparr>cursor_bg := c_bg self, cursor_fg := c_color self\<rparr>;
                       s = screen_draw s (c_separator self);
                       s = s\<lparr>cursor_fg := c_fg self\<rparr>;
                       s = screen_draw s (CHR '' '' # text);
                       s = s\<lparr>cursor_fg := c_bg self, cursor_bg := 0\<rparr>
                   in Inr (screen_draw s (snd (c_border self))))"

text \<open>\<^verbatim>\<open>Cell.length\<close>\<close>

definition cell_length :: "cell \<Rightarrow> int \<Rightarrow> int result" where
  "cell_length self max_size =
     rbind (c_text_fn self (max_size - text_length_overhead self) (c_tab self))
       (\<lambda>text.
          case text of
            None \<Rightarrow> Inr 0
          | Some text \<Rightarrow>
              if text = []
              then Inr (int (length (c_icon self @ fst (c_border self) @ snd (c_border self))))
              else Inr (int (length text) + text_length_overhead self))"

section \<open>Strings, slices and \<^verbatim>\<open>pathlib\<close>\<close>

text \<open>\<^verbatim>\<open>sep.join(xs)\<close> and \<^verbatim>\<open>s.split(sep)\<close> for a one-character separator.\<close>

fun join :: "string \<Rightarrow> string list \<Rightarrow> string" where
  "join sep [] = []"
| "join sep [x] = x"
| "join sep (x # y # ys) = x @ sep @ join sep (y # ys)"

fun split_on :: "char \<Rightarrow> string \<Rightarrow> string list" where
  "split_on sep [] = [[]]"
| "split_on sep (c # cs) =
     (if c = sep then [] # split_on sep cs
      else (case split_on sep cs of [] \<Rightarrow> [[c]] | x # xs \<Rightarrow> (c # x) # xs))"

text \<open>\<^verbatim>\<open>xs[i:]\<close>: a negative start counts from the end and is clipped at the front.\<close>

definition py_slice_from :: "'a list \<Rightarrow> int \<Rightarrow> 'a list" where
  "py_slice_from xs i =
     drop (nat (if i < 0 then max 0 (int (length xs) + i) else i)) xs"

text \<open>\<^verbatim>\<open>str(n)\<close> for an integer.\<close>

definition digit_char :: "nat \<Rightarrow> char" where
  "digit_char d = ''0123456789'' ! d"

function str_nat :: "nat \<Rightarrow> string" where
  "str_nat n = (if n < 10 then [digit_char n] else str_nat (n div 10) @ [digit_char (n mod 10)])"
  by pat_completeness auto
termination
  by (relation "measure id") auto

declare str_nat.simps [simp del]

definition str_int :: "int \<Rightarrow> string" where
  "str_int i = (if i < 0 then CHR ''-'' # str_nat (nat (- i)) else str_nat (nat i))"

text \<open>
  A POSIX \<^verbatim>\<open>pathlib.Path\<close> is represented by its \<^verbatim>\<open>parts\<close>: the root (\<^verbatim>\<open>/\<close>, or \<^verbatim>\<open>//\<close> for
  exactly two leading slashes) when the path is absolute, then the components, where empty
  components and \<^verbatim>\<open>.\<close> are dropped on construction. So \<^verbatim>\<open>Path("")\<close> and \<^verbatim>\<open>Path(".")\<close> have
  no parts, and \<^verbatim>\<open>..\<close> is kept as a component.
\<close>

type_synonym path = "string list"

definition splitroot :: "string \<Rightarrow> string \<times> string" where
  "splitroot p =
     (if take 1 p \<noteq> ''/'' then ([], p)
      else if take 1 (drop 1 p) \<noteq> ''/'' \<or> take 1 (drop 2 p) = ''/''
           then (''/'', dropWhile (\<lambda>c. c = CHR ''/'') p)
           else (''//'', drop 2 p))"

definition Path :: "string \<Rightarrow> path" where
  "Path p =
     (let (root, rel) = splitroot p;
          parsed = filter (\<lambda>x. x \<noteq> [] \<and> x \<noteq> ''.'') (split_on CHR ''/'' rel)
      in if root \<noteq> [] then root # parsed else parsed)"

definition is_absolute :: "path \<Rightarrow> bool" where
  "is_absolute p = (case p of [] \<Rightarrow> False | r # _ \<Rightarrow> r = ''/'' \<or> r = ''//'')"

text \<open>
  \<^verbatim>\<open>self.is_relative_to(other)\<close>: \<^verbatim>\<open>other\<close> is \<^verbatim>\<open>self\<close> or one of its parents; the empty path
  is a parent of relative paths only.
\<close>

definition is_relative_to :: "path \<Rightarrow> path \<Rightarrow> bool" where
  "is_relative_to self other =
     (take (length other) self = other \<and> (if other = [] then \<not> is_absolute self else True))"

text \<open>\<^verbatim>\<open>self.relative_to(other)\<close>, called only where \<^verbatim>\<open>is_relative_to\<close> holds.\<close>

definition relative_to :: "path \<Rightarrow> path \<Rightarrow> path" where
  "relative_to self other = drop (length other) self"

text \<open>\<^verbatim>\<open>a / b\<close>\<close>

definition path_join :: "path \<Rightarrow> path \<Rightarrow> path" where
  "path_join a b = (if is_absolute b then b else a @ b)"

section \<open>The host\<close>

text \<open>
  What the module reads from its environment during one frame: the resolved colour
  options, \<^verbatim>\<open>os.getenv('HOME')\<close>, the active pane's working directory and executable of a
  tab (\<^verbatim>\<open>TabAccessor\<close>), the formatted local time, and the handle \<^verbatim>\<open>add_timer\<close> returns.
\<close>

record host =
  BG :: int
  FG :: int
  COLOR_1 :: int
  COLOR_2 :: int
  COLOR_3 :: int
  COLOR_4 :: int
  HOME :: "string option"
  active_wd :: "int \<Rightarrow> string"
  active_exe :: "int \<Rightarrow> string"
  strftime_HM :: string
  add_timer :: int

definition REFRESH_TIME :: int where "REFRESH_TIME = 15"

definition MAX_LENGTH_PATH :: int where "MAX_LENGTH_PATH = 3"

text \<open>
  The icons: one glyph (U+F07B, U+F0954, U+F120; a stand-in character each) followed by a
  space.
\<close>

definition folder_icon :: string where "folder_icon = [CHR 0xF0, CHR '' '']"
definition time_icon :: string where "time_icon = [CHR 0xF1, CHR '' '']"
definition session_icon :: string where "session_icon = [CHR 0xF2, CHR '' '']"

section \<open>Text providers\<close>

datatype 'a loop_exit = Return 'a | Fallthrough

text \<open>
  The \<^verbatim>\<open>while parts_cnt != len(parts)\<close> loop of \<^verbatim>\<open>get_wd\<close>. It either returns from the
  function, falls through to the code after it, or runs forever (\<open>None\<close>).
\<close>

partial_function (option) get_wd_loop ::
  "string list \<Rightarrow> bool \<Rightarrow> int \<Rightarrow> nat \<Rightarrow> string loop_exit option" where
  "get_wd_loop parts compressed max_size parts_cnt =
     (if parts_cnt \<noteq> length parts then
        (let wd = join ''/'' (take (1 + of_bool compressed) parts @ drop parts_cnt parts)
         in if int (length wd) \<le> max_size then Some (Return wd)
            else get_wd_loop parts compressed max_size (parts_cnt + 1))
      else Some Fallthrough)"

declare get_wd_loop.simps [code]

text \<open>The block \<^verbatim>\<open>if wd.is_relative_to(home): ...\<close> that replaces the home prefix with \<^verbatim>\<open>~\<close>.\<close>

definition replace_home :: "path \<Rightarrow> path \<Rightarrow> path" where
  "replace_home wd home =
     (if is_relative_to wd home
      then (let wd = relative_to wd home
            in if wd = home then Path ''~'' else path_join (Path ''~'') wd)
      else wd)"

text \<open>
  The block \<^verbatim>\<open>if len(parts) > MAX_LENGTH_PATH: ...\<close>; it yields the new \<^verbatim>\<open>parts\<close> and
  \<^verbatim>\<open>compressed\<close>. \<^verbatim>\<open>parts[0]\<close> is read only where there are more than three parts.
\<close>

definition compress :: "string list \<Rightarrow> string list \<times> bool" where
  "compress parts =
     (if int (length parts) > MAX_LENGTH_PATH
      then ([parts ! 0, ''..''] @ py_slice_from parts (- MAX_LENGTH_PATH), True)
      else (parts, False))"

definition get_wd :: "host \<Rightarrow> int \<Rightarrow> tab option \<Rightarrow> string option result" where
  "get_wd h max_size tb =
     (case tb of
        None \<Rightarrow> Inl (Raise AttributeError)
      | Some t \<Rightarrow>
          let wd = Path (active_wd h (tab_id t))
          in case HOME h of
               None \<Rightarrow> Inl (Raise TypeError)
             | Some hm \<Rightarrow>
                 let home = Path hm;
                     wd = replace_home wd home;
                     (parts, compressed) = compress wd
                 in case get_wd_loop parts compressed max_size (1 + of_bool compressed) of
                      None \<Rightarrow> Inl Diverge
                    | Some (Return r) \<Rightarrow> Inr (Some r)
                    | Some Fallthrough \<Rightarrow>
                        rbind (py_index parts (- 1))
                          (\<lambda>l. if int (length l) \<le> max_size then Inr (Some l) else Inr None))"

definition get_time :: "host \<Rightarrow> int \<Rightarrow> tab option \<Rightarrow> string option result" where
  "get_time h max_size tb = (if max_size < 5 then Inr None else Inr (Some (strftime_HM h)))"

definition get_tab :: "host \<Rightarrow> int \<Rightarrow> tab option \<Rightarrow> string option result" where
  "get_tab h max_size tb =
     (case tb of
        None \<Rightarrow> Inl (Raise AttributeError)
      | Some t \<Rightarrow>
          rbind (py_index (title t) 0)
            (\<lambda>c. let text = (if c = CHR ''#'' then drop 1 (title t) else active_exe h (tab_id t))
                  in if max_size \<le> int (length text) then Inr (Some []) else Inr (Some text)))"

definition get_session :: "int \<Rightarrow> tab option \<Rightarrow> string option result" where
  "get_session max_size tb =
     (case tb of
        None \<Rightarrow> Inl (Raise AttributeError)
      | Some t \<Rightarrow>
          let text = session_name t;
              text = (if text = [] then ''none'' else text)
          in if int (length text) \<le> max_size then Inr (Some text)
             else if max_size \<ge> 3 then Inr (Some (take 3 text))
             else Inr None)"

definition get_tab_cell :: "host \<Rightarrow> tab \<Rightarrow> cell" where
  "get_tab_cell h t =
     (let color = (if is_active t then COLOR_2 h else COLOR_1 h)
      in Cell (str_int (tab_id t)) (get_tab h) (Some t) (BG h) (FG h) color
           default_separator default_border)"

section \<open>Center layout\<close>

text \<open>The module's globals.\<close>

record globals =
  center :: "cell list"
  active_index :: int
  timer_id :: "int option"

definition initial_globals :: globals where
  "initial_globals = \<lparr>center = [], active_index = 1, timer_id = None\<rparr>"

datatype CenterStrategy =
  EXPAND_ALL | EXPAND_ACTIVE | NO_EXPAND | SHOW_ACTIVE | SHOW_ACTIVE_NO_EXPAND

text \<open>\<^verbatim>\<open>sum(map(lambda x: x.length(w), cells))\<close>, accumulating from the left.\<close>

fun sum_length :: "int \<Rightarrow> cell list \<Rightarrow> int \<Rightarrow> int result" where
  "sum_length w [] acc = Inr acc"
| "sum_length w (x # xs) acc = rbind (cell_length x w) (\<lambda>n. sum_length w xs (acc + n))"

text \<open>The \<^verbatim>\<open>for index, cell in enumerate(center)\<close> loop of the second strategy.\<close>

fun expand_active_loop :: "int \<Rightarrow> int \<Rightarrow> int \<Rightarrow> cell list \<Rightarrow> int \<Rightarrow> int result" where
  "expand_active_loop cols ai index [] len = Inr len"
| "expand_active_loop cols ai index (cell # rest) len =
     rbind (if index = ai then cell_length cell cols else cell_length cell 0)
       (\<lambda>n. expand_active_loop cols ai (index + 1) rest (len + n))"

definition center_strategy :: "globals \<Rightarrow> screen \<Rightarrow> (CenterStrategy \<times> int) result" where
  "center_strategy g scr =
     (let n_cells = int (length (center g)) in
      rbind (sum_length (columns scr) (center g) 0) (\<lambda>total.
      let len = n_cells - 1 + total in
      if len < columns scr then Inr (EXPAND_ALL, len) else
      rbind (expand_active_loop (columns scr) (active_index g) 0 (center g) (n_cells - 1)) (\<lambda>len.
      if len < columns scr then Inr (EXPAND_ACTIVE, len) else
      rbind (sum_length 0 (center g) 0) (\<lambda>total.
      let len = n_cells - 1 + total in
      if len < columns scr then Inr (NO_EXPAND, len) else
      rbind (py_index (center g) (active_index g)) (\<lambda>cell.
      rbind (cell_length cell (columns scr)) (\<lambda>len.
      if len < columns scr then Inr (SHOW_ACTIVE, len) else
      rbind (py_index (center g) (active_index g)) (\<lambda>cell.
      rbind (cell_length cell 0) (\<lambda>len.
      Inr (SHOW_ACTIVE_NO_EXPAND, len)))))))))"

text \<open>
  The three \<^verbatim>\<open>enumerate\<close> loops of \<^verbatim>\<open>draw_center\<close> differ only in the width handed to
  \<^verbatim>\<open>cell.draw\<close>, a function of the screen and the index.
\<close>

fun draw_cells :: "(screen \<Rightarrow> int \<Rightarrow> int) \<Rightarrow> int \<Rightarrow> cell list \<Rightarrow> screen \<Rightarrow> screen result" where
  "draw_cells budget idx [] scr = Inr scr"
| "draw_cells budget idx (cell # rest) scr =
     (let scr = (if idx \<noteq> 0 then screen_draw scr '' '' else scr)
      in rbind (cell_draw cell scr (budget scr idx))
           (\<lambda>scr. draw_cells budget (idx + 1) rest scr))"

definition draw_center :: "globals \<Rightarrow> screen \<Rightarrow> CenterStrategy \<Rightarrow> screen result" where
  "draw_center g scr strategy =
     (case strategy of
        EXPAND_ALL \<Rightarrow> draw_cells (\<lambda>s idx. columns s) 0 (center g) scr
      | EXPAND_ACTIVE \<Rightarrow>
          draw_cells (\<lambda>s idx. columns s * of_bool (idx = active_index g)) 0 (center g) scr
      | NO_EXPAND \<Rightarrow> draw_cells (\<lambda>s idx. 0) 0 (center g) scr
      | SHOW_ACTIVE \<Rightarrow>
          rbind (py_index (center g) (active_index g)) (\<lambda>cell. cell_draw cell scr (columns scr))
      | SHOW_ACTIVE_NO_EXPAND \<Rightarrow>
          rbind (py_index (center g) (active_index g)) (\<lambda>cell. cell_draw cell scr 0))"

section \<open>Section drawers\<close>

definition draw_left :: "host \<Rightarrow> globals \<Rightarrow> screen \<Rightarrow> int \<Rightarrow> screen result" where
  "draw_left h g scr max_length =
     rbind (py_index (center g) (active_index g)) (\<lambda>active.
       let cell = Cell folder_icon (get_wd h) (c_tab active) (BG h) (FG h) (COLOR_4 h)
                    default_separator default_border
       in cell_draw cell scr max_length)"

definition draw_right :: "host \<Rightarrow> globals \<Rightarrow> screen \<Rightarrow> screen result" where
  "draw_right h g scr =
     (let max_size = columns scr - cursor_x scr;
          time_cell = Cell time_icon (get_time h) None (BG h) (FG h) (COLOR_3 h)
                        default_separator default_border
      in rbind (py_index (center g) (active_index g)) (\<lambda>active.
         let session_cell = Cell session_icon get_session (c_tab active) (BG h) (FG h) (COLOR_3 h)
                              default_separator default_border
         in rbind (cell_length time_cell max_size) (\<lambda>total_length.
            rbind (cell_length session_cell (max_size - total_length - 1)) (\<lambda>session_length.
            let total_length =
                  (if session_length \<noteq> 0 then total_length + (1 + session_length)
                   else total_length);
                offset_length = max_size - total_length;
                scr = screen_draw scr (replicate (nat offset_length) CHR '' '')
            in rbind (if session_length \<noteq> 0
                      then rbind (cell_draw session_cell scr session_length)
                             (\<lambda>scr. Inr (screen_draw scr '' ''))
                      else Inr scr)
                 (\<lambda>scr. cell_draw time_cell scr max_size)))))"

section \<open>The entry point\<close>

text \<open>
  \<^verbatim>\<open>draw_tab\<close>, with the globals passed in and returned. The arguments \<^verbatim>\<open>draw_data\<close>,
  \<^verbatim>\<open>before\<close>, \<^verbatim>\<open>max_title_length\<close> and \<^verbatim>\<open>extra_data\<close> are not read.
\<close>

definition center_start_position :: "screen \<Rightarrow> int \<Rightarrow> int" where
  "center_start_position scr len = (columns scr - len) div 2"

text \<open>The part of \<^verbatim>\<open>draw_tab\<close> that runs on every call: timer, active index, append.\<close>

definition accumulate :: "host \<Rightarrow> globals \<Rightarrow> tab \<Rightarrow> int \<Rightarrow> globals" where
  "accumulate h g t index =
     (let g = (if timer_id g = None then g\<lparr>timer_id := Some (add_timer h)\<rparr> else g);
          g = (if is_active t then g\<lparr>active_index := index - 1\<rparr> else g)
      in g\<lparr>center := center g @ [get_tab_cell h t]\<rparr>)"

definition draw_tab ::
  "host \<Rightarrow> globals \<Rightarrow> screen \<Rightarrow> tab \<Rightarrow> int \<Rightarrow> bool \<Rightarrow> (globals \<times> screen \<times> int) result" where
  "draw_tab h g scr t index is_last =
     (let g = accumulate h g t index
      in if is_last then
           rbind (center_strategy g scr) (\<lambda>(strategy, len).
           let start = center_start_position scr len in
           rbind (draw_left h g scr (start - 1)) (\<lambda>scr.
           let scr = scr\<lparr>cursor_x := start\<rparr> in
           rbind (draw_center g scr strategy) (\<lambda>scr.
           let scr = screen_draw scr '' '' in
           rbind (draw_right h g scr) (\<lambda>scr.
           let g = g\<lparr>center := []\<rparr>
           in Inr (g, scr, cursor_x scr)))))
         else Inr (g, scr, cursor_x scr))"


section \<open>The layout contract in the specification's words\<close>

text \<open>
  The specification describes the strategist as a list of candidates, each with the total
  width it would consume, tried in order; the first whose width is strictly below the
  column count wins, and the last candidate is taken without a test. Here \<open>full\<close> and
  \<open>icon\<close> give a cell's length at the full and at the zero width budget.
\<close>

fun spec_first_fit :: "int \<Rightarrow> (CenterStrategy \<times> int) list \<Rightarrow> CenterStrategy \<times> int
                        \<Rightarrow> CenterStrategy \<times> int" where
  "spec_first_fit cols [] fallback = fallback"
| "spec_first_fit cols ((strategy, width) # rest) fallback =
     (if width < cols then (strategy, width) else spec_first_fit cols rest fallback)"

definition spec_expand_all_width :: "(cell \<Rightarrow> int) \<Rightarrow> cell list \<Rightarrow> int" where
  "spec_expand_all_width full cells = sum_list (map full cells) + (int (length cells) - 1)"

definition spec_expand_active_width ::
  "(cell \<Rightarrow> int) \<Rightarrow> (cell \<Rightarrow> int) \<Rightarrow> int \<Rightarrow> cell list \<Rightarrow> int" where
  "spec_expand_active_width full icon ai cells =
     (\<Sum>k < length cells. if int k = ai then full (cells ! k) else icon (cells ! k))
       + (int (length cells) - 1)"

definition spec_no_expand_width :: "(cell \<Rightarrow> int) \<Rightarrow> cell list \<Rightarrow> int" where
  "spec_no_expand_width icon cells = sum_list (map icon cells) + (int (length cells) - 1)"

text \<open>The label \<^verbatim>\<open>get_tab\<close> works with, for a tab whose title is not empty.\<close>

definition tab_label :: "host \<Rightarrow> tab \<Rightarrow> string" where
  "tab_label h t = (if hd (title t) = CHR ''#'' then tl (title t) else active_exe h (tab_id t))"

text \<open>The columns a drawing step writes: the glyphs it adds to the grid.\<close>

definition columns_written :: "screen \<Rightarrow> screen \<Rightarrow> int" where
  "columns_written before after = int (length (grid after)) - int (length (grid before))"

text \<open>The value a call returned (\<open>0\<close> where it did not return).\<close>

definition returned :: "int result \<Rightarrow> int" where
  "returned r = (case r of Inl e \<Rightarrow> 0 | Inr n \<Rightarrow> n)"

section \<open>Notions used in the statements and proofs\<close>

text \<open>
  A cell is well formed when its overhead is the one \<^verbatim>\<open>Cell.__init__\<close> computes; \<open>returns\<close>
  says that a call returned a value; \<open>total_length\<close> and \<open>all_return\<close> follow a list of
  cells with their indices, the width budget being a function of the index.
\<close>

definition well_formed :: "cell \<Rightarrow> bool" where
  "well_formed c \<longleftrightarrow>
     text_length_overhead c =
       int (length (fst (c_border c) @ snd (c_border c) @ c_separator c @ c_icon c)) + 1"

definition returns :: "'a result \<Rightarrow> bool" where
  "returns r = (case r of Inl e \<Rightarrow> False | Inr v \<Rightarrow> True)"

fun total_length :: "(int \<Rightarrow> int) \<Rightarrow> int \<Rightarrow> cell list \<Rightarrow> int" where
  "total_length B i [] = 0"
| "total_length B i (c # cs) = returned (cell_length c (B i)) + total_length B (i + 1) cs"

fun all_return :: "(int \<Rightarrow> int) \<Rightarrow> int \<Rightarrow> cell list \<Rightarrow> bool" where
  "all_return B i [] = True"
| "all_return B i (c # cs) = (returns (cell_length c (B i)) \<and> all_return B (i + 1) cs)"

section \<open>Concrete inputs\<close>

definition example_wd :: "int \<Rightarrow> string" where
  "example_wd i =
     (if i = 1 then ''/home/u'' else if i = 2 then ''/home/u/a/b/c/d''
      else if i = 3 then ''/a/b/c/d'' else [])"

definition example_exe :: "int \<Rightarrow> string" where
  "example_exe i = ''bash''"

definition example_host :: host where
  "example_host = \<lparr>BG = 1, FG = 2, COLOR_1 = 3, COLOR_2 = 4, COLOR_3 = 5, COLOR_4 = 6,
     HOME = Some ''/home/u'', active_wd = example_wd, active_exe = example_exe,
     strftime_HM = ''12:34'', add_timer = 7\<rparr>"

definition example_screen :: screen where
  "example_screen = \<lparr>columns = 80, cursor_x = 0, cursor_dim = False, cursor_bold = False,
     cursor_italic = False, cursor_fg = 0, cursor_bg = 0, grid = []\<rparr>"

definition tab_1 :: tab where
  "tab_1 = \<lparr>tab_id = 1, title = ''#alpha'', is_active = False, session_name = ''development''\<rparr>"

definition tab_2 :: tab where
  "tab_2 = \<lparr>tab_id = 2, title = ''bash'', is_active = True, session_name = ''development''\<rparr>"

definition tab_3 :: tab where
  "tab_3 = \<lparr>tab_id = 3, title = ''#gamma'', is_active = False, session_name = ''development''\<rparr>"

definition tab_hash :: tab where
  "tab_hash = \<lparr>tab_id = 5, title = ''#'', is_active = False, session_name = []\<rparr>"

definition tab_untitled :: tab where
  "tab_untitled = \<lparr>tab_id = 4, title = [], is_active = True, session_name = []\<rparr>"

definition tab_lost :: tab where
  "tab_lost = \<lparr>tab_id = 6, title = ''sh'', is_active = True, session_name = []\<rparr>"

definition example_globals :: globals where
  "example_globals =
     \<lparr>center = [get_tab_cell example_host tab_1, get_tab_cell example_host tab_2,
                get_tab_cell example_host tab_3],
      active_index = 1, timer_id = Some 7\<rparr>"

text \<open>The globals after the calls for \<open>tab_1\<close> and \<open>tab_2\<close> of a frame, and a path of five parts.\<close>

definition frame_before_last :: globals where
  "frame_before_last =
     accumulate example_host (accumulate example_host initial_globals tab_1 1) tab_2 2"

definition example_parts :: path where
  "example_parts = replace_home (Path (active_wd example_host (tab_id tab_2))) (Path ''/home/u'')"

section \<open>Basic facts\<close>

lemma rbind_Inl [simp]: "rbind (Inl e) f = Inl e"
  by (simp add: rbind_def)

lemma rbind_Inr [simp]: "rbind (Inr v) f = f v"
  by (simp add: rbind_def)

lemma rbind_eq_Inr:
  "rbind m f = Inr y \<longleftrightarrow> (\<exists>v. m = Inr v \<and> f v = Inr y)"
  by (cases m) simp_all

lemma screen_draw_cursor_x [simp]:
  "cursor_x (screen_draw s t) = cursor_x s + int (length t)"
  by (induction t arbitrary: s) simp_all

lemma screen_draw_grid_length [simp]:
  "length (grid (screen_draw s t)) = length (grid s) + length t"
  by (induction t arbitrary: s) simp_all

lemma screen_draw_columns [simp]: "columns (screen_draw s t) = columns s"
  by (induction t arbitrary: s) simp_all

lemma py_index_last: "xs \<noteq> [] \<Longrightarrow> py_index xs (- 1) = Inr (last xs)"
proof -
  assume ne: "xs \<noteq> []"
  then have "Suc 0 \<le> length xs" by (cases xs) simp_all
  with ne show ?thesis
    by (simp add: py_index_def last_conv_nth nat_diff_distrib')
qed

section \<open>Cell: measuring agrees with drawing\<close>

lemma cell_draw_hidden:
  "c_text_fn c (w - text_length_overhead c) (c_tab c) = Inr None \<Longrightarrow> cell_draw c s w = Inr s"
  by (simp add: cell_draw_def)


lemma cell_length_failure:
  "c_text_fn c (w - text_length_overhead c) (c_tab c) = Inl e \<Longrightarrow> cell_length c w = Inl e"
  by (simp add: cell_length_def)

lemma cell_draw_shown:
  assumes "c_text_fn c (w - text_length_overhead c) (c_tab c) = Inr (Some t)"
  shows "\<exists>s'. cell_draw c s w = Inr s' \<and> columns s' = columns s
            \<and> cursor_x s' = cursor_x s
                 + (if t = [] then int (length (c_icon c @ fst (c_border c) @ snd (c_border c)))
                    else int (length t) + int (length (fst (c_border c) @ snd (c_border c)
                                                       @ c_separator c @ c_icon c)) + 1)
            \<and> columns_written s s' = cursor_x s' - cursor_x s"
  using assms by (simp add: cell_draw_def columns_written_def Let_def)


text \<open>
  C1. For every cell built by \<^verbatim>\<open>Cell(...)\<close>, every width and every screen, \<^verbatim>\<open>draw\<close> writes
  exactly \<^verbatim>\<open>length(max_size)\<close> columns: when the provider fails both fail alike; when it
  hides the cell the length is 0 and the screen is left as it was; when it returns the empty
  string the columns are those of the icon and the two borders; when it returns a label they
  are the label's length plus the overhead, the length of borders, separator and icon plus 1.
\<close>

theorem cell_draw_writes_length:
  "(let c = Cell icon text_fn tb bg fg color separator border;
        overhead = int (length (fst border @ snd border @ separator @ icon)) + 1
    in case text_fn (w - overhead) tb of
         Inl e \<Rightarrow> cell_length c w = Inl e \<and> cell_draw c s w = Inl e
       | Inr None \<Rightarrow> cell_length c w = Inr 0 \<and> cell_draw c s w = Inr s
       | Inr (Some label) \<Rightarrow>
           (\<exists>s'. cell_draw c s w = Inr s'
                \<and> cell_length c w = Inr (columns_written s s')
                \<and> cursor_x s' = cursor_x s + columns_written s s'
                \<and> columns_written s s' =
                    (if label = []
                     then int (length icon) + int (length (fst border)) + int (length (snd border))
                     else int (length label) + overhead)))"
  by (simp add: Cell_def cell_draw_def cell_length_def columns_written_def Let_def
           split: sum.splits option.splits)

theorem cell_draw_writes_length_witness:
  "\<exists>s'. cell_draw (Cell session_icon get_session (Some tab_1) 1 2 5 default_separator default_border)
            example_screen 9 = Inr s'
      \<and> cell_length (Cell session_icon get_session (Some tab_1) 1 2 5 default_separator default_border)
            9 = Inr (columns_written example_screen s')
      \<and> cursor_x s' = cursor_x example_screen + columns_written example_screen s'
      \<and> columns_written example_screen s' = 9"
  using cell_draw_writes_length [where icon = session_icon and text_fn = get_session
      and tb = "Some tab_1" and bg = 1 and fg = 2 and color = 5 and separator = default_separator
      and border = default_border and w = 9 and s = example_screen]
  by (simp add: get_session_def tab_1_def session_icon_def default_separator_def
        default_border_def Let_def)

section \<open>The strategist picks the first candidate that fits\<close>

lemma sum_length_returns:
  "\<forall>c \<in> set cs. cell_length c w = Inr (f c) \<Longrightarrow>
     sum_length w cs acc = Inr (acc + sum_list (map f cs))"
  by (induction cs arbitrary: acc) simp_all

lemma expand_active_loop_returns:
  "\<forall>c \<in> set cs. cell_length c cols = Inr (full c) \<and> cell_length c 0 = Inr (icon c) \<Longrightarrow>
     expand_active_loop cols ai i cs len =
       Inr (len + (\<Sum>k < length cs. if i + int k = ai then full (cs ! k) else icon (cs ! k)))"
proof (induction cs arbitrary: i len)
  case Nil
  then show ?case by simp
next
  case (Cons c cs)
  let ?n = "if i = ai then full c else icon c"
  let ?rest = "\<Sum>k < length cs. if i + 1 + int k = ai then full (cs ! k) else icon (cs ! k)"
  let ?F = "\<lambda>k. if i + int k = ai then full ((c # cs) ! k) else icon ((c # cs) ! k)"
  have step: "expand_active_loop cols ai i (c # cs) len =
                expand_active_loop cols ai (i + 1) cs (len + ?n)"
    using Cons.prems by simp
  have ih: "expand_active_loop cols ai (i + 1) cs (len + ?n) = Inr (len + ?n + ?rest)"
    using Cons.prems by (intro Cons.IH) simp
  have "(\<Sum>k < Suc (length cs). ?F k) = ?F 0 + (\<Sum>k < length cs. ?F (Suc k))"
    by (rule sum.lessThan_Suc_shift)
  moreover have "\<And>k. ?F (Suc k) = (if i + 1 + int k = ai then full (cs ! k) else icon (cs ! k))"
    by (simp add: add.assoc add.commute)
  ultimately have total: "(\<Sum>k < length (c # cs). ?F k) = ?n + ?rest"
    by simp
  show ?case
    unfolding step ih total by (simp only: add.assoc)
qed

text \<open>
  C2. For a non-empty cell list whose active index denotes one of its cells and whose cells
  all have a length at the full and at the zero budget, \<^verbatim>\<open>center_strategy\<close> returns the
  first of Expand-All, Expand-Active, No-Expand and Show-Active whose total width is strictly
  below \<^verbatim>\<open>screen.columns\<close>, and Show-Active-Icon-Only when none is; the first three totals
  count \<open>n - 1\<close> separating spaces, the fourth is the active cell's full length, and the
  width returned is the total that was tested (for the fallback, the active cell's length
  at budget zero).
\<close>

theorem center_strategy_first_fit:
  assumes "center g \<noteq> []"
    and "py_index (center g) (active_index g) = Inr active"
    and "\<forall>c \<in> set (center g).
           cell_length c (columns scr) = Inr (full c) \<and> cell_length c 0 = Inr (icon c)"
  shows "center_strategy g scr =
           Inr (spec_first_fit (columns scr)
                  [(EXPAND_ALL, spec_expand_all_width full (center g)),
                   (EXPAND_ACTIVE, spec_expand_active_width full icon (active_index g) (center g)),
                   (NO_EXPAND, spec_no_expand_width icon (center g)),
                   (SHOW_ACTIVE, full active)]
                  (SHOW_ACTIVE_NO_EXPAND, icon active))"
proof -
  have in_set: "active \<in> set (center g)"
    using assms(2) by (auto simp add: py_index_def Let_def split: if_splits)
  have a: "sum_length (columns scr) (center g) 0 = Inr (sum_list (map full (center g)))"
    using sum_length_returns [of "center g" "columns scr" full 0] assms(3) by simp
  have b: "sum_length 0 (center g) 0 = Inr (sum_list (map icon (center g)))"
    using sum_length_returns [of "center g" 0 icon 0] assms(3) by simp
  have c: "expand_active_loop (columns scr) (active_index g) 0 (center g) (int (length (center g)) - 1)
           = Inr (spec_expand_active_width full icon (active_index g) (center g))"
    using expand_active_loop_returns [of "center g" "columns scr" full icon "active_index g" 0]
      assms(3) by (simp add: spec_expand_active_width_def)
  have d: "cell_length active (columns scr) = Inr (full active)"
    "cell_length active 0 = Inr (icon active)"
    using in_set assms(3) by auto
  show ?thesis
    by (simp add: center_strategy_def a b c d assms(2) Let_def spec_expand_all_width_def
          spec_no_expand_width_def add.commute)
qed

lemma str_int_examples: "str_int 1 = ''1''" "str_int 2 = ''2''" "str_int 3 = ''3''"
  by (simp_all add: str_int_def str_nat.simps digit_char_def)

lemma example_cell_lengths:
  "cell_length (get_tab_cell example_host tab_1) 80 = Inr 10"
  "cell_length (get_tab_cell example_host tab_2) 80 = Inr 9"
  "cell_length (get_tab_cell example_host tab_3) 80 = Inr 10"
  "cell_length (get_tab_cell example_host tab_1) 0 = Inr 3"
  "cell_length (get_tab_cell example_host tab_2) 0 = Inr 3"
  "cell_length (get_tab_cell example_host tab_3) 0 = Inr 3"
  by (simp_all add: cell_length_def get_tab_cell_def Cell_def get_tab_def py_index_def
        example_host_def example_exe_def tab_1_def tab_2_def tab_3_def str_int_examples
        default_separator_def default_border_def Let_def)

theorem center_strategy_first_fit_witness:
  "center example_globals \<noteq> []
   \<and> py_index (center example_globals) (active_index example_globals)
       = Inr (get_tab_cell example_host tab_2)
   \<and> cell_length (get_tab_cell example_host tab_1) (columns example_screen) = Inr 10
   \<and> cell_length (get_tab_cell example_host tab_2) (columns example_screen) = Inr 9
   \<and> cell_length (get_tab_cell example_host tab_3) (columns example_screen) = Inr 10
   \<and> cell_length (get_tab_cell example_host tab_1) 0 = Inr 3
   \<and> cell_length (get_tab_cell example_host tab_2) 0 = Inr 3
   \<and> cell_length (get_tab_cell example_host tab_3) 0 = Inr 3
   \<and> center_strategy example_globals example_screen = Inr (EXPAND_ALL, 31)"
  using center_strategy_first_fit [of example_globals "get_tab_cell example_host tab_2"
      example_screen "\<lambda>c. returned (cell_length c 80)" "\<lambda>c. returned (cell_length c 0)"]
  by (simp add: example_globals_def example_screen_def py_index_def example_cell_lengths
        returned_def spec_expand_all_width_def)

section \<open>Text providers\<close>

subsection \<open>The loop of \<^verbatim>\<open>get_wd\<close>\<close>

text \<open>
  With no parts at all the counter starts at 1, beyond \<^verbatim>\<open>len(parts) = 0\<close>, the test
  \<^verbatim>\<open>parts_cnt != len(parts)\<close> stays true, and for a negative \<^verbatim>\<open>max_size\<close> the empty
  candidate never fits: the loop does not return.
\<close>

lemma get_wd_loop_empty_aux:
  assumes "get_wd_loop parts c w cnt = Some y"
  shows "\<not> (parts = [] \<and> w < 0 \<and> 1 \<le> cnt)"
proof (rule get_wd_loop.raw_induct
    [where P = "\<lambda>parts c w cnt y. \<not> (parts = [] \<and> w < 0 \<and> 1 \<le> cnt)", OF _ assms])
  fix f :: "string list \<Rightarrow> bool \<Rightarrow> int \<Rightarrow> nat \<Rightarrow> string loop_exit option"
    and parts c w cnt y
  assume ih: "\<And>parts c w cnt y. f parts c w cnt = Some y \<Longrightarrow> \<not> (parts = [] \<and> w < 0 \<and> 1 \<le> cnt)"
    and body: "(if cnt \<noteq> length parts
                then let wd = join ''/'' (take (1 + of_bool c) parts @ drop cnt parts)
                     in if int (length wd) \<le> w then Some (Return wd)
                        else f parts c w (cnt + 1)
                else Some Fallthrough) = Some y"
  show "\<not> (parts = [] \<and> w < 0 \<and> 1 \<le> cnt)"
  proof
    assume a: "parts = [] \<and> w < 0 \<and> 1 \<le> cnt"
    with body have "f [] c w (cnt + 1) = Some y"
      by (simp add: Let_def)
    from ih [OF this] show False using a by simp
  qed
qed

lemma get_wd_loop_empty: "w < 0 \<Longrightarrow> 1 \<le> cnt \<Longrightarrow> get_wd_loop [] c w cnt = None"
  using get_wd_loop_empty_aux [of "[]" c w cnt] by (cases "get_wd_loop [] c w cnt") auto

text \<open>
  Started at or below \<^verbatim>\<open>len(parts)\<close> the loop ends; what it returns fits \<^verbatim>\<open>max_size\<close> and is
  the head joined with the parts from some position on.
\<close>

lemma get_wd_loop_total:
  "cnt \<le> length parts \<Longrightarrow>
     \<exists>r. get_wd_loop parts c w cnt = Some r
        \<and> (\<forall>s. r = Return s \<longrightarrow>
              int (length s) \<le> w
              \<and> (\<exists>k. cnt \<le> k \<and> k < length parts
                     \<and> s = join ''/'' (take (1 + of_bool c) parts @ drop k parts)))"
proof (induction "length parts - cnt" arbitrary: cnt)
  case 0
  then have "cnt = length parts" by simp
  then show ?case by (subst get_wd_loop.simps) simp
next
  case (Suc n)
  then have lt: "cnt < length parts" and n: "n = length parts - (cnt + 1)"
    and le: "cnt + 1 \<le> length parts" by simp_all
  let ?wd = "join ''/'' (take (1 + of_bool c) parts @ drop cnt parts)"
  show ?case
  proof (cases "int (length ?wd) \<le> w")
    case True
    with lt have "get_wd_loop parts c w cnt = Some (Return ?wd)"
      by (subst get_wd_loop.simps) (simp add: Let_def)
    with True lt show ?thesis by auto
  next
    case False
    with lt have eq: "get_wd_loop parts c w cnt = get_wd_loop parts c w (cnt + 1)"
      by (subst get_wd_loop.simps) (simp add: Let_def)
    from Suc.hyps(1) [OF n le] obtain r where
      r: "get_wd_loop parts c w (cnt + 1) = Some r"
         "\<forall>s. r = Return s \<longrightarrow> int (length s) \<le> w
              \<and> (\<exists>k. cnt + 1 \<le> k \<and> k < length parts
                     \<and> s = join ''/'' (take (1 + of_bool c) parts @ drop k parts))"
      by blast
    have "\<forall>s. r = Return s \<longrightarrow> int (length s) \<le> w
              \<and> (\<exists>k. cnt \<le> k \<and> k < length parts
                     \<and> s = join ''/'' (take (1 + of_bool c) parts @ drop k parts))"
      using r(2) by (metis add_leD1)
    with r(1) eq show ?thesis by simp
  qed
qed

text \<open>Whatever the loop returns fits, wherever it is started.\<close>

lemma get_wd_loop_fits_aux:
  assumes "get_wd_loop parts c w cnt = Some y"
  shows "\<forall>s. y = Return s \<longrightarrow> int (length s) \<le> w"
proof (rule get_wd_loop.raw_induct
    [where P = "\<lambda>parts c w cnt y. \<forall>s. y = Return s \<longrightarrow> int (length s) \<le> w", OF _ assms])
  fix f :: "string list \<Rightarrow> bool \<Rightarrow> int \<Rightarrow> nat \<Rightarrow> string loop_exit option"
    and parts c w cnt y
  assume ih: "\<And>parts c w cnt y. f parts c w cnt = Some y \<Longrightarrow>
                 \<forall>s. y = Return s \<longrightarrow> int (length s) \<le> w"
    and body: "(if cnt \<noteq> length parts
                then let wd = join ''/'' (take (1 + of_bool c) parts @ drop cnt parts)
                     in if int (length wd) \<le> w then Some (Return wd)
                        else f parts c w (cnt + 1)
                else Some Fallthrough) = Some y"
  show "\<forall>s. y = Return s \<longrightarrow> int (length s) \<le> w"
  proof (cases "cnt \<noteq> length parts
                \<and> \<not> int (length (join ''/'' (take (1 + of_bool c) parts @ drop cnt parts))) \<le> w")
    case True
    with body have "f parts c w (cnt + 1) = Some y" by (simp add: Let_def)
    from ih [OF this] show ?thesis .
  next
    case False
    with body show ?thesis by (auto simp add: Let_def split: if_splits)
  qed
qed

lemma Path_empty: "Path [] = []"
  by (simp add: Path_def splitroot_def)

text \<open>
  C3, at the input where the code leaves it. The active pane's working directory is unknown
  (the empty string, a path without parts) and the width left for the label is \<open>-1\<close>:
  \<^verbatim>\<open>get_wd\<close> does not return.
\<close>

theorem get_wd_diverges:
  "get_wd example_host (- 1) (Some tab_lost) = Inl Diverge"
proof -
  have "active_wd example_host (tab_id tab_lost) = []"
    by (simp add: example_host_def example_wd_def tab_lost_def)
  moreover have "HOME example_host = Some ''/home/u''"
    by (simp add: example_host_def)
  moreover have "replace_home [] (Path ''/home/u'') = []"
    by (simp add: replace_home_def is_relative_to_def Path_def splitroot_def)
  ultimately show ?thesis
    by (simp add: get_wd_def Path_empty compress_def MAX_LENGTH_PATH_def get_wd_loop_empty)
qed

text \<open>
  Apart from that case \<^verbatim>\<open>get_wd\<close> behaves as described: a string it returns is never
  longer than \<^verbatim>\<open>max_size\<close>, and it returns whenever the path has a part or \<^verbatim>\<open>max_size\<close> is
  not negative.
\<close>

lemma get_wd_fits:
  assumes "get_wd h w tb = Inr (Some s)"
  shows "int (length s) \<le> w"
proof -
  from assms obtain t hm where tb: "tb = Some t" and home: "HOME h = Some hm"
    by (auto simp add: get_wd_def split: option.splits)
  obtain ps c where pc: "compress (replace_home (Path (active_wd h (tab_id t))) (Path hm)) = (ps, c)"
    by (cases "compress (replace_home (Path (active_wd h (tab_id t))) (Path hm))")
  from assms tb home pc obtain r where r: "get_wd_loop ps c w (1 + of_bool c) = Some r"
    by (auto simp add: get_wd_def Let_def split: option.splits)
  show ?thesis
  proof (cases r)
    case (Return s')
    with assms tb home pc r have "s = s'" by (simp add: get_wd_def Let_def)
    with get_wd_loop_fits_aux [OF r] Return show ?thesis by simp
  next
    case Fallthrough
    with assms tb home pc r show ?thesis
      by (auto simp add: get_wd_def Let_def rbind_eq_Inr split: if_splits)
  qed
qed

lemma compress_cases:
  "compress parts = (ps, c) \<Longrightarrow>
     (c \<and> length ps = 5 \<and> 3 < length parts) \<or> (\<not> c \<and> ps = parts \<and> length parts \<le> 3)"
  by (auto simp add: compress_def MAX_LENGTH_PATH_def py_slice_from_def split: if_splits)

lemma get_wd_returns:
  assumes home: "HOME h = Some hm"
    and ok: "replace_home (Path (active_wd h (tab_id t))) (Path hm) \<noteq> [] \<or> 0 \<le> w"
  shows "\<exists>r. get_wd h w (Some t) = Inr r"
proof -
  let ?parts = "replace_home (Path (active_wd h (tab_id t))) (Path hm)"
  obtain ps c where pc: "compress ?parts = (ps, c)" by (cases "compress ?parts")
  have gw: "get_wd h w (Some t) =
      (case get_wd_loop ps c w (1 + of_bool c) of
         None \<Rightarrow> Inl Diverge
       | Some (Return r) \<Rightarrow> Inr (Some r)
       | Some Fallthrough \<Rightarrow>
           rbind (py_index ps (- 1))
             (\<lambda>l. if int (length l) \<le> w then Inr (Some l) else Inr None))"
    using home pc by (simp add: get_wd_def Let_def)
  show ?thesis
  proof (cases "ps = []")
    case True
    with compress_cases [OF pc] have c: "\<not> c" and e: "?parts = []" by auto
    with ok have w: "0 \<le> w" by simp
    have "get_wd_loop [] False w (Suc 0) = Some (Return [])"
      using w by (subst get_wd_loop.simps) (simp add: Let_def)
    with gw True c show ?thesis by simp
  next
    case False
    with compress_cases [OF pc] have le: "1 + of_bool c \<le> length ps"
      by (cases ps) auto
    from get_wd_loop_total [OF le, of c w] obtain r where
      r: "get_wd_loop ps c w (1 + of_bool c) = Some r" by blast
    show ?thesis
    proof (cases r)
      case (Return s)
      with gw r show ?thesis by simp
    next
      case Fallthrough
      with gw r False show ?thesis by (simp add: py_index_last)
    qed
  qed
qed

text \<open>
  The path \<^verbatim>\<open>/a/b/c/d\<close> has five parts; at \<^verbatim>\<open>max_size = 1\<close> no candidate with the marker
  fits and the last resort returns the final segment alone, \<^verbatim>\<open>d\<close>, without a marker.
\<close>

theorem get_wd_last_resort_counterexample:
  "length (replace_home (Path (active_wd example_host (tab_id tab_3))) (Path ''/home/u'')) = 5
   \<and> get_wd example_host 1 (Some tab_3) = Inr (Some ''d'')
   \<and> count_list (split_on CHR ''/'' ''d'') ''..'' = 0"
  by code_simp

subsection \<open>Compressed paths\<close>

lemma compress_long:
  "3 < length parts \<Longrightarrow>
     compress parts = (parts ! 0 # ''..'' # drop (length parts - 3) parts, True)"
proof -
  assume "3 < length parts"
  then have "nat (int (length parts) - 3) = length parts - 3" by linarith
  with \<open>3 < length parts\<close> show ?thesis
    by (simp add: compress_def MAX_LENGTH_PATH_def py_slice_from_def)
qed

text \<open>
  C4, as the code has it. For a working directory with more than three parts after the home
  prefix is replaced, a string returned by \<^verbatim>\<open>get_wd\<close> is either the final segment alone
  (the last resort, without a marker), or the first segment, the marker \<^verbatim>\<open>..\<close> and the last
  \<open>k\<close> segments joined by \<^verbatim>\<open>/\<close>, with \<open>1 \<le> k \<le> 3\<close>; in the second case the marker is
  the only \<^verbatim>\<open>..\<close> among the joined segments when no segment of the path is itself \<^verbatim>\<open>..\<close>.
\<close>

theorem get_wd_compressed:
  assumes home: "HOME h = Some hm"
    and parts: "parts = replace_home (Path (active_wd h (tab_id t))) (Path hm)"
    and long: "3 < length parts"
    and ret: "get_wd h max_size (Some t) = Inr (Some s)"
  shows "s = last parts
       \<or> (\<exists>k. 1 \<le> k \<and> k \<le> 3
              \<and> s = join ''/'' (parts ! 0 # ''..'' # drop (length parts - k) parts)
              \<and> (''..'' \<notin> set parts \<longrightarrow>
                   count_list (parts ! 0 # ''..'' # drop (length parts - k) parts) ''..'' = 1))"
proof -
  let ?ps = "parts ! 0 # ''..'' # drop (length parts - 3) parts"
  have len: "length ?ps = 5" using long by simp
  from get_wd_loop_total [of "Suc (Suc 0)" ?ps True max_size] len obtain r where
    r: "get_wd_loop ?ps True max_size (Suc (Suc 0)) = Some r"
    and rr: "\<forall>s. r = Return s \<longrightarrow> int (length s) \<le> max_size
              \<and> (\<exists>k. Suc (Suc 0) \<le> k \<and> k < length ?ps
                     \<and> s = join ''/'' (take (1 + of_bool True) ?ps @ drop k ?ps))"
    by auto
  have gw: "get_wd h max_size (Some t) =
              (case r of Return r \<Rightarrow> Inr (Some r)
               | Fallthrough \<Rightarrow>
                   rbind (py_index ?ps (- 1))
                     (\<lambda>l. if int (length l) \<le> max_size then Inr (Some l) else Inr None))"
    using home long r by (simp add: get_wd_def Let_def compress_long parts [symmetric])
  show ?thesis
  proof (cases r)
    case Fallthrough
    have "length parts - 3 < length parts" using long by linarith
    then have "last ?ps = last parts" by (simp add: last_drop)
    with gw ret Fallthrough show ?thesis
      by (auto simp add: py_index_last split: if_splits)
  next
    case (Return s')
    with gw ret have s: "s = s'" by simp
    from rr Return obtain k where
      k0: "Suc (Suc 0) \<le> k \<and> k < length ?ps
           \<and> s' = join ''/'' (take (1 + of_bool True) ?ps @ drop k ?ps)"
      by blast
    have tk: "take (1 + of_bool True) ?ps = [parts ! 0, ''..'']" by simp
    from k0 have "Suc (Suc 0) \<le> k" and "k < length ?ps" by blast+
    then have k: "2 \<le> k" "k < 5" unfolding len by linarith+
    have ar: "Suc (length parts - 3) = length parts - 2"
      "Suc (length parts - 2) = length parts - Suc 0"
      using long by linarith+
    consider "k = 2" | "k = 3" | "k = 4" using k by linarith
    then have dr: "drop k ?ps = drop (length parts - (5 - k)) parts"
      by cases (simp_all add: ar)
    have "0 < length parts" using long by linarith
    then have p0: "parts ! 0 \<in> set parts" by (rule nth_mem)
    have cnt: "''..'' \<notin> set parts \<longrightarrow>
            count_list (parts ! 0 # ''..'' # drop (length parts - (5 - k)) parts) ''..'' = 1"
      using p0 set_drop_subset [of "length parts - (5 - k)" parts]
      by (auto simp add: count_list_0_iff)
    have "s = join ''/'' (parts ! 0 # ''..'' # drop (length parts - (5 - k)) parts)"
      using s k0 by (simp only: tk dr append_Cons append_Nil)
    moreover have "1 \<le> 5 - k" "5 - k \<le> 3" using k by simp_all
    ultimately show ?thesis using cnt by blast
  qed
qed

theorem get_wd_compressed_witness:
  "HOME example_host = Some ''/home/u''
   \<and> 3 < length example_parts
   \<and> get_wd example_host 9 (Some tab_2) = Inr (Some ''~/../c/d'')
   \<and> (''~/../c/d'' = last example_parts
       \<or> (\<exists>k. 1 \<le> k \<and> k \<le> 3
              \<and> ''~/../c/d'' =
                  join ''/'' (example_parts ! 0 # ''..'' # drop (length example_parts - k) example_parts)
              \<and> (''..'' \<notin> set example_parts \<longrightarrow>
                   count_list (example_parts ! 0 # ''..''
                               # drop (length example_parts - k) example_parts) ''..'' = 1)))"
proof -
  have h1: "HOME example_host = Some ''/home/u''" by (simp add: example_host_def)
  have h3: "3 < length example_parts" by code_simp
  have h4: "get_wd example_host 9 (Some tab_2) = Inr (Some ''~/../c/d'')" by code_simp
  from get_wd_compressed [OF h1 example_parts_def h3 h4] h1 h3 h4 show ?thesis by blast
qed

text \<open>
  When the final segment alone is longer than \<^verbatim>\<open>max_size\<close>, every candidate is too, and
  \<^verbatim>\<open>get_wd\<close> hides the cell.
\<close>

lemma length_last_le_join: "xs \<noteq> [] \<Longrightarrow> length (last xs) \<le> length (join sep xs)"
  by (induction sep xs rule: join.induct) auto

lemma compress_last:
  "parts \<noteq> [] \<Longrightarrow> compress parts = (ps, c) \<Longrightarrow> ps \<noteq> [] \<and> last ps = last parts"
proof -
  assume ne: "parts \<noteq> []" and pc: "compress parts = (ps, c)"
  show ?thesis
  proof (cases "3 < length parts")
    case True
    then have "length parts - 3 < length parts" by linarith
    with True pc show ?thesis by (auto simp add: compress_long last_drop)
  next
    case False
    with pc ne show ?thesis by (simp add: compress_def MAX_LENGTH_PATH_def)
  qed
qed

lemma get_wd_hidden:
  assumes home: "HOME h = Some hm"
    and parts: "parts = replace_home (Path (active_wd h (tab_id t))) (Path hm)"
    and ne: "parts \<noteq> []"
    and long: "w < int (length (last parts))"
  shows "get_wd h w (Some t) = Inr None"
proof -
  obtain ps c where pc: "compress parts = (ps, c)" by (cases "compress parts")
  from compress_last [OF ne pc] have ps: "ps \<noteq> []" and lst: "last ps = last parts" by simp_all
  have gw: "get_wd h w (Some t) =
      (case get_wd_loop ps c w (1 + of_bool c) of
         None \<Rightarrow> Inl Diverge
       | Some (Return r) \<Rightarrow> Inr (Some r)
       | Some Fallthrough \<Rightarrow>
           rbind (py_index ps (- 1))
             (\<lambda>l. if int (length l) \<le> w then Inr (Some l) else Inr None))"
    using home pc by (simp add: get_wd_def Let_def parts [symmetric])
  from compress_cases [OF pc] ps have le: "1 + of_bool c \<le> length ps"
    by (cases ps) auto
  from get_wd_loop_total [OF le, of c w] obtain r where
    r: "get_wd_loop ps c w (1 + of_bool c) = Some r"
    and rr: "\<forall>s. r = Return s \<longrightarrow> int (length s) \<le> w
              \<and> (\<exists>k. 1 + of_bool c \<le> k \<and> k < length ps
                     \<and> s = join ''/'' (take (1 + of_bool c) ps @ drop k ps))"
    by blast
  have "r = Fallthrough"
  proof (cases r)
    case (Return s)
    with rr obtain k where fits: "int (length s) \<le> w" and k: "k < length ps"
      and s: "s = join ''/'' (take (1 + of_bool c) ps @ drop k ps)" by blast
    let ?cand = "take (1 + of_bool c) ps @ drop k ps"
    from k have d: "drop k ps \<noteq> []" by simp
    then have l: "last ?cand = last ps"
      using k by (simp add: last_drop)
    from d have "?cand \<noteq> []" by simp
    from length_last_le_join [OF this, of "''/''"]
    have "length (last ps) \<le> length s" unfolding l s .
    with fits long lst show ?thesis by simp
  qed simp
  with gw r ps long lst show ?thesis by (simp add: py_index_last)
qed

subsection \<open>Home directory and tab labels\<close>

lemma get_wd_loop_single:
  "get_wd_loop [p] False w (Suc 0) = Some Fallthrough"
  by (subst get_wd_loop.simps) simp

lemma Path_tilde: "Path ''~'' = [''~'']"
  by (simp add: Path_def splitroot_def)

lemma replace_home_same: "replace_home p p = [''~'']"
  by (cases p) (auto simp add: replace_home_def is_relative_to_def relative_to_def Path_tilde
        path_join_def is_absolute_def Let_def)

text \<open>
  C5. When the active pane's working directory is the home directory itself (the two paths
  are equal), \<^verbatim>\<open>get_wd\<close> returns the one-character string \<^verbatim>\<open>~\<close> for every \<^verbatim>\<open>max_size\<close> of at
  least 1.
\<close>

theorem get_wd_home:
  "HOME h = Some hm \<Longrightarrow> Path (active_wd h (tab_id t)) = Path hm \<Longrightarrow> 1 \<le> max_size
     \<Longrightarrow> get_wd h max_size (Some t) = Inr (Some ''~'')"
  by (simp add: get_wd_def replace_home_same compress_def MAX_LENGTH_PATH_def
        get_wd_loop_single py_index_def Let_def)

theorem get_wd_home_witness:
  "HOME example_host = Some ''/home/u''
   \<and> Path (active_wd example_host (tab_id tab_1)) = Path ''/home/u'' \<and> (1::int) \<le> 1
   \<and> get_wd example_host 1 (Some tab_1) = Inr (Some ''~'')"
  using get_wd_home [of example_host "''/home/u''" tab_1 1]
  by (simp add: example_host_def example_wd_def tab_1_def)

text \<open>
  C6, as the code has it. For a tab with a non-empty title the label is the title without
  its first character when that is \<^verbatim>\<open>#\<close> and the active pane's executable name otherwise;
  \<^verbatim>\<open>get_tab\<close> returns the empty string when the label's length is at least \<^verbatim>\<open>max_size\<close> and
  the label verbatim otherwise. So it returns the empty string if and only if the label's
  length is at least \<^verbatim>\<open>max_size\<close> or the label itself is empty.
\<close>

theorem get_tab_label:
  "title t \<noteq> [] \<Longrightarrow>
     get_tab h max_size (Some t) =
       Inr (Some (if int (length (tab_label h t)) \<ge> max_size then [] else tab_label h t))
     \<and> (get_tab h max_size (Some t) = Inr (Some [])
          \<longleftrightarrow> int (length (tab_label h t)) \<ge> max_size \<or> tab_label h t = [])"
  by (cases "title t") (auto simp add: get_tab_def py_index_def tab_label_def Let_def)

theorem get_tab_label_witness:
  "title tab_1 \<noteq> [] \<and> get_tab example_host 6 (Some tab_1) = Inr (Some ''alpha'')
   \<and> get_tab example_host 5 (Some tab_1) = Inr (Some [])"
  using get_tab_label [of tab_1 example_host 6] get_tab_label [of tab_1 example_host 5]
  by (simp add: tab_1_def tab_label_def)

text \<open>
  The title \<^verbatim>\<open>#\<close> gives the empty label: at \<^verbatim>\<open>max_size = 5\<close> the empty string is returned
  although the label's length, 0, is below 5.
\<close>

theorem get_tab_empty_label_counterexample:
  "title tab_hash \<noteq> [] \<and> get_tab example_host 5 (Some tab_hash) = Inr (Some [])
   \<and> \<not> int (length (tab_label example_host tab_hash)) \<ge> 5"
  by (simp add: get_tab_def py_index_def tab_hash_def tab_label_def)

section \<open>The strategist on an empty list\<close>

text \<open>
  C8, as the code has it. With an empty cell list the first test is \<open>-1 < columns\<close>: for
  every column count of at least 0 \<^verbatim>\<open>center_strategy\<close> returns Expand-All with width \<open>-1\<close>
  and raises nothing; the show-active-only paths are reached only for a column count below
  0, and there they raise \<^verbatim>\<open>IndexError\<close>.
\<close>

theorem center_strategy_empty:
  "center g = [] \<Longrightarrow>
     center_strategy g scr =
       (if - 1 < columns scr then Inr (EXPAND_ALL, - 1) else Inl (Raise IndexError))"
  by (simp add: center_strategy_def py_index_def)

theorem center_strategy_empty_witness:
  "center initial_globals = []
   \<and> center_strategy initial_globals (example_screen\<lparr>columns := - 1\<rparr>) = Inl (Raise IndexError)"
  using center_strategy_empty [of initial_globals "example_screen\<lparr>columns := - 1\<rparr>"]
  by (simp add: initial_globals_def)

text \<open>On an 80-column screen the empty list is answered with Expand-All, not an error.\<close>

theorem center_strategy_empty_counterexample:
  "center initial_globals = []
   \<and> center_strategy initial_globals example_screen = Inr (EXPAND_ALL, - 1)"
  by (simp add: center_strategy_def initial_globals_def example_screen_def)

section \<open>Calls that only accumulate\<close>


lemma center_accumulate: "center (accumulate h g t i) = center g @ [get_tab_cell h t]"
  by (simp add: accumulate_def Let_def)



section \<open>The center block\<close>

lemma returns_iff: "returns r \<longleftrightarrow> (\<exists>v. r = Inr v)"
  by (cases r) (simp_all add: returns_def)

lemma returned_Inr [simp]: "returned (Inr n) = n"
  by (simp add: returned_def)

lemma well_formed_Cell [simp]: "well_formed (Cell icon text_fn tb bg fg color separator border)"
  by (simp add: well_formed_def Cell_def)

lemma well_formed_get_tab_cell [simp]: "well_formed (get_tab_cell h t)"
  by (simp add: get_tab_cell_def Let_def)


lemma cell_draw_by_length:
  assumes "well_formed c" and "cell_length c w = Inr n"
  shows "\<exists>s'. cell_draw c s w = Inr s' \<and> columns s' = columns s \<and> cursor_x s' = cursor_x s + n"
proof (cases "c_text_fn c (w - text_length_overhead c) (c_tab c)")
  case (Inl e)
  with assms(2) show ?thesis by (simp add: cell_length_failure)
next
  case (Inr lbl)
  show ?thesis
  proof (cases lbl)
    case None
    with Inr assms(2) have "n = 0" by (simp add: cell_length_def)
    with None Inr show ?thesis by (simp add: cell_draw_hidden)
  next
    case (Some t)
    with Inr assms have
      "n = (if t = [] then int (length (c_icon c @ fst (c_border c) @ snd (c_border c)))
            else int (length t) + int (length (fst (c_border c) @ snd (c_border c)
                                               @ c_separator c @ c_icon c)) + 1)"
      by (simp add: cell_length_def well_formed_def split: if_splits)
    with Some Inr cell_draw_shown [of c w t s] show ?thesis by auto
  qed
qed

lemma sum_length_D:
  "sum_length w cs acc = Inr tot \<Longrightarrow>
     all_return (\<lambda>_. w) i cs \<and> tot = acc + total_length (\<lambda>_. w) i cs"
proof (induction cs arbitrary: acc i)
  case Nil
  then show ?case by simp
next
  case (Cons c cs)
  from Cons.prems obtain n where n: "cell_length c w = Inr n"
    and rest: "sum_length w cs (acc + n) = Inr tot"
    by (auto simp add: rbind_eq_Inr)
  from Cons.IH [OF rest, of "i + 1"] n show ?case
    by (simp add: returns_def)
qed

lemma expand_active_loop_D:
  "expand_active_loop cols ai i cs len = Inr tot \<Longrightarrow>
     all_return (\<lambda>j. if j = ai then cols else 0) i cs
     \<and> tot = len + total_length (\<lambda>j. if j = ai then cols else 0) i cs"
proof (induction cs arbitrary: len i)
  case Nil
  then show ?case by simp
next
  case (Cons c cs)
  from Cons.prems obtain n where n: "cell_length c (if i = ai then cols else 0) = Inr n"
    and rest: "expand_active_loop cols ai (i + 1) cs (len + n) = Inr tot"
    by (auto simp add: rbind_eq_Inr split: if_splits)
  from Cons.IH [OF rest] n show ?case
    by (simp add: returns_def)
qed

lemma draw_cells_advance:
  assumes "\<forall>c \<in> set cs. well_formed c"
    and "\<And>s idx. columns s = cols \<Longrightarrow> budget s idx = B idx"
    and "columns s = cols" and "1 \<le> i" and "all_return B i cs"
  shows "\<exists>s'. draw_cells budget i cs s = Inr s' \<and> columns s' = cols
             \<and> cursor_x s' = cursor_x s + int (length cs) + total_length B i cs"
  using assms(1,3,4,5)
proof (induction cs arbitrary: i s)
  case Nil
  then show ?case by simp
next
  case (Cons c cs)
  let ?s1 = "screen_draw s '' ''"
  from Cons.prems obtain n where n: "cell_length c (B i) = Inr n"
    by (auto simp add: returns_iff)
  have wf: "well_formed c" using Cons.prems by simp
  from cell_draw_by_length [OF wf n, of ?s1] obtain s2 where
    s2: "cell_draw c ?s1 (B i) = Inr s2" "columns s2 = columns ?s1"
        "cursor_x s2 = cursor_x ?s1 + n"
    by blast
  have cols1: "columns ?s1 = cols" using Cons.prems by simp
  have b: "budget ?s1 i = B i" using assms(2) cols1 by simp
  have "\<exists>s'. draw_cells budget (i + 1) cs s2 = Inr s' \<and> columns s' = cols
             \<and> cursor_x s' = cursor_x s2 + int (length cs) + total_length B (i + 1) cs"
    using Cons.prems s2(2) cols1 by (intro Cons.IH) simp_all
  then obtain s' where s': "draw_cells budget (i + 1) cs s2 = Inr s'" "columns s' = cols"
      "cursor_x s' = cursor_x s2 + int (length cs) + total_length B (i + 1) cs"
    by blast
  have "draw_cells budget i (c # cs) s = Inr s'"
    using Cons.prems(3) b s2(1) s'(1) by (simp add: Let_def)
  with s' s2(3) n show ?case by simp
qed

lemma draw_cells_from_zero:
  assumes "\<forall>c \<in> set cs. well_formed c"
    and "\<And>s idx. columns s = cols \<Longrightarrow> budget s idx = B idx"
    and "columns s = cols" and "cs \<noteq> []" and "all_return B 0 cs"
  shows "\<exists>s'. draw_cells budget 0 cs s = Inr s' \<and> columns s' = cols
             \<and> cursor_x s' = cursor_x s + (int (length cs) - 1) + total_length B 0 cs"
proof -
  from assms(4) obtain c rest where cs: "cs = c # rest" by (cases cs) auto
  from assms(5) cs obtain n where n: "cell_length c (B 0) = Inr n"
    by (auto simp add: returns_iff)
  have wf: "well_formed c" using assms(1) cs by simp
  from cell_draw_by_length [OF wf n, of s] obtain s2 where
    s2: "cell_draw c s (B 0) = Inr s2" "columns s2 = columns s" "cursor_x s2 = cursor_x s + n"
    by blast
  have "\<exists>s'. draw_cells budget 1 rest s2 = Inr s' \<and> columns s' = cols
             \<and> cursor_x s' = cursor_x s2 + int (length rest) + total_length B 1 rest"
    using assms(1,3,5) cs s2(2) by (intro draw_cells_advance assms(2)) simp_all
  then obtain s' where s': "draw_cells budget 1 rest s2 = Inr s'" "columns s' = cols"
      "cursor_x s' = cursor_x s2 + int (length rest) + total_length B 1 rest"
    by blast
  have "draw_cells budget 0 cs s = Inr s'"
    using cs assms(2) [OF assms(3)] s2(1) s'(1) by (simp add: Let_def)
  with s' s2(3) n cs show ?thesis by simp
qed

lemma py_index_in_set: "py_index xs i = Inr x \<Longrightarrow> x \<in> set xs"
  by (auto simp add: py_index_def Let_def split: if_splits)

lemma center_strategy_cases:
  assumes "center_strategy g scr = Inr (strategy, len)"
  shows "(strategy = EXPAND_ALL
            \<and> (\<exists>tot. sum_length (columns scr) (center g) 0 = Inr tot
                  \<and> len = int (length (center g)) - 1 + tot))
       \<or> (strategy = EXPAND_ACTIVE
            \<and> expand_active_loop (columns scr) (active_index g) 0 (center g)
                (int (length (center g)) - 1) = Inr len)
       \<or> (strategy = NO_EXPAND
            \<and> (\<exists>tot. sum_length 0 (center g) 0 = Inr tot
                  \<and> len = int (length (center g)) - 1 + tot))
       \<or> (strategy = SHOW_ACTIVE
            \<and> (\<exists>cell. py_index (center g) (active_index g) = Inr cell
                  \<and> cell_length cell (columns scr) = Inr len))
       \<or> (strategy = SHOW_ACTIVE_NO_EXPAND
            \<and> (\<exists>cell. py_index (center g) (active_index g) = Inr cell
                  \<and> cell_length cell 0 = Inr len))"
  using assms
  by (auto simp add: center_strategy_def Let_def rbind_eq_Inr split: if_splits)

lemma draw_center_advance:
  assumes wf: "\<forall>c \<in> set (center g). well_formed c" and ne: "center g \<noteq> []"
    and cs: "center_strategy g scr = Inr (strategy, len)"
    and cols: "columns s = columns scr"
  shows "\<exists>s'. draw_center g s strategy = Inr s' \<and> columns s' = columns scr
             \<and> cursor_x s' = cursor_x s + len"
  using center_strategy_cases [OF cs]
proof (elim disjE conjE exE)
  fix tot
  assume st: "strategy = EXPAND_ALL"
    and sm: "sum_length (columns scr) (center g) 0 = Inr tot"
    and len: "len = int (length (center g)) - 1 + tot"
  let ?B = "\<lambda>j::int. columns scr"
  from sum_length_D [OF sm, of 0] have ar: "all_return ?B 0 (center g)"
    and tot: "tot = total_length ?B 0 (center g)" by simp_all
  have bud: "\<And>s idx. columns s = columns scr \<Longrightarrow> (\<lambda>s idx. columns s) s idx = ?B idx"
    by simp
  from draw_cells_from_zero [where budget = "\<lambda>s idx. columns s" and B = ?B,
      OF wf bud cols ne ar] st len tot show ?thesis
    by (auto simp add: draw_center_def)
next
  assume st: "strategy = EXPAND_ACTIVE"
    and lp: "expand_active_loop (columns scr) (active_index g) 0 (center g)
                (int (length (center g)) - 1) = Inr len"
  let ?B = "\<lambda>j. if j = active_index g then columns scr else 0"
  from expand_active_loop_D [OF lp] have ar: "all_return ?B 0 (center g)"
    and len: "len = int (length (center g)) - 1 + total_length ?B 0 (center g)" by simp_all
  have bud: "\<And>s idx. columns s = columns scr \<Longrightarrow>
      (\<lambda>s idx. columns s * of_bool (idx = active_index g)) s idx = ?B idx"
    by simp
  from draw_cells_from_zero
      [where budget = "\<lambda>s idx. columns s * of_bool (idx = active_index g)" and B = ?B,
      OF wf bud cols ne ar] st len show ?thesis
    by (auto simp add: draw_center_def)
next
  fix tot
  assume st: "strategy = NO_EXPAND"
    and sm: "sum_length 0 (center g) 0 = Inr tot"
    and len: "len = int (length (center g)) - 1 + tot"
  let ?B = "\<lambda>j::int. 0::int"
  from sum_length_D [OF sm, of 0] have ar: "all_return ?B 0 (center g)"
    and tot: "tot = total_length ?B 0 (center g)" by simp_all
  have "\<exists>s'. draw_cells (\<lambda>s idx. 0) 0 (center g) s = Inr s' \<and> columns s' = columns scr
             \<and> cursor_x s' = cursor_x s + (int (length (center g)) - 1)
                  + total_length ?B 0 (center g)"
    by (rule draw_cells_from_zero [where B = ?B]) (use wf cols ne ar in simp_all)
  with st len tot show ?thesis
    by (auto simp add: draw_center_def)
next
  fix cell
  assume st: "strategy = SHOW_ACTIVE"
    and ix: "py_index (center g) (active_index g) = Inr cell"
    and cl: "cell_length cell (columns scr) = Inr len"
  have "well_formed cell" using wf py_index_in_set [OF ix] by simp
  from cell_draw_by_length [OF this cl, of s] st ix cols show ?thesis
    by (auto simp add: draw_center_def)
next
  fix cell
  assume st: "strategy = SHOW_ACTIVE_NO_EXPAND"
    and ix: "py_index (center g) (active_index g) = Inr cell"
    and cl: "cell_length cell 0 = Inr len"
  have "well_formed cell" using wf py_index_in_set [OF ix] by simp
  from cell_draw_by_length [OF this cl, of s] st ix cols show ?thesis
    by (auto simp add: draw_center_def)
qed










section \<open>When the flushing call returns\<close>

lemma py_index_map: "py_index xs i = Inr a \<Longrightarrow> py_index (map f xs) i = Inr (f a)"
  by (auto simp add: py_index_def split: if_splits)

lemma replace_home_nonempty: "wd \<noteq> [] \<Longrightarrow> replace_home wd home \<noteq> []"
  by (auto simp add: replace_home_def Let_def Path_tilde path_join_def is_absolute_def
        split: list.splits)

lemma get_tab_returns:
  "title t \<noteq> [] \<Longrightarrow> \<exists>r. get_tab h w (Some t) = Inr r"
  by (cases "title t") (simp_all add: get_tab_def py_index_def Let_def)

lemma cell_length_returns:
  "c_text_fn c (w - text_length_overhead c) (c_tab c) = Inr r \<Longrightarrow> \<exists>n. cell_length c w = Inr n"
  by (cases r) (simp_all add: cell_length_def)

lemma cell_draw_returns:
  assumes "c_text_fn c (w - text_length_overhead c) (c_tab c) = Inr r"
  shows "\<exists>s'. cell_draw c s w = Inr s' \<and> columns s' = columns s"
proof (cases r)
  case None
  with assms show ?thesis by (simp add: cell_draw_hidden)
next
  case (Some t)
  with assms cell_draw_shown [of c w t s] show ?thesis by auto
qed

lemma tab_cell_length_returns:
  "title t \<noteq> [] \<Longrightarrow> \<exists>n. cell_length (get_tab_cell h t) w = Inr n"
proof -
  assume "title t \<noteq> []"
  from get_tab_returns [OF this] obtain r where
    "get_tab h (w - text_length_overhead (get_tab_cell h t)) (Some t) = Inr r" by blast
  then show ?thesis
    by (intro cell_length_returns [of _ _ r]) (simp add: get_tab_cell_def Cell_def Let_def)
qed

lemma center_strategy_returns:
  assumes "py_index (center g) (active_index g) = Inr active"
    and "\<forall>c \<in> set (center g). \<forall>w. \<exists>n. cell_length c w = Inr n"
  shows "\<exists>r. center_strategy g scr = Inr r"
proof -
  define full where "full = (\<lambda>c. returned (cell_length c (columns scr)))"
  define icon where "icon = (\<lambda>c. returned (cell_length c 0))"
  have all: "\<forall>c \<in> set (center g).
      cell_length c (columns scr) = Inr (full c) \<and> cell_length c 0 = Inr (icon c)"
  proof
    fix c assume "c \<in> set (center g)"
    with assms(2) obtain n m where "cell_length c (columns scr) = Inr n" "cell_length c 0 = Inr m"
      by blast
    then show "cell_length c (columns scr) = Inr (full c) \<and> cell_length c 0 = Inr (icon c)"
      by (simp add: full_def icon_def)
  qed
  have a: "sum_length (columns scr) (center g) 0 = Inr (sum_list (map full (center g)))"
    using sum_length_returns [of "center g" "columns scr" full 0] all by simp
  have b: "sum_length 0 (center g) 0 = Inr (sum_list (map icon (center g)))"
    using sum_length_returns [of "center g" 0 icon 0] all by simp
  have c: "expand_active_loop (columns scr) (active_index g) 0 (center g)
      (int (length (center g)) - 1)
      = Inr (spec_expand_active_width full icon (active_index g) (center g))"
    using expand_active_loop_returns [of "center g" "columns scr" full icon "active_index g" 0]
      all by (simp add: spec_expand_active_width_def)
  have d: "cell_length active (columns scr) = Inr (full active)"
    "cell_length active 0 = Inr (icon active)"
    using py_index_in_set [OF assms(1)] all by auto
  show ?thesis
    by (simp add: center_strategy_def a b c d assms(1) Let_def)
qed

lemma draw_left_returns:
  assumes "py_index (center g) (active_index g) = Inr active" and "c_tab active = Some a"
    and "HOME h = Some hm" and "Path (active_wd h (tab_id a)) \<noteq> []"
  shows "\<exists>s'. draw_left h g scr w = Inr s' \<and> columns s' = columns scr"
proof -
  let ?cell = "Cell folder_icon (get_wd h) (Some a) (BG h) (FG h) (COLOR_4 h)
                 default_separator default_border"
  from get_wd_returns [OF assms(3), of a "w - text_length_overhead ?cell"]
    replace_home_nonempty [OF assms(4)]
  obtain r where "get_wd h (w - text_length_overhead ?cell) (Some a) = Inr r" by blast
  then have "c_text_fn ?cell (w - text_length_overhead ?cell) (c_tab ?cell) = Inr r"
    by (simp add: Cell_def)
  from cell_draw_returns [OF this, of scr] assms(1,2) show ?thesis
    by (simp add: draw_left_def Let_def)
qed

lemma draw_right_returns:
  assumes "py_index (center g) (active_index g) = Inr active" and "c_tab active = Some a"
  shows "\<exists>s'. draw_right h g scr = Inr s'"
proof -
  let ?m = "columns scr - cursor_x scr"
  let ?tc = "Cell time_icon (get_time h) None (BG h) (FG h) (COLOR_3 h)
               default_separator default_border"
  let ?sc = "Cell session_icon get_session (Some a) (BG h) (FG h) (COLOR_3 h)
               default_separator default_border"
  have t: "\<And>w. \<exists>r. c_text_fn ?tc (w - text_length_overhead ?tc) (c_tab ?tc) = Inr r"
    by (simp add: Cell_def get_time_def)
  have s: "\<And>w. \<exists>r. c_text_fn ?sc (w - text_length_overhead ?sc) (c_tab ?sc) = Inr r"
    by (simp add: Cell_def get_session_def Let_def)
  from t cell_length_returns obtain tl where tl: "cell_length ?tc ?m = Inr tl" by blast
  from s cell_length_returns obtain sl where sl: "cell_length ?sc (?m - tl - 1) = Inr sl"
    by blast
  let ?tot = "if sl \<noteq> 0 then tl + (1 + sl) else tl"
  let ?s1 = "screen_draw scr (replicate (nat (?m - ?tot)) CHR '' '')"
  obtain s2 where s2: "(if sl \<noteq> 0
                      then rbind (cell_draw ?sc ?s1 sl) (\<lambda>scr. Inr (screen_draw scr '' ''))
                      else Inr ?s1) = Inr s2"
  proof (cases "sl \<noteq> 0")
    case True
    from s cell_draw_returns obtain s' where "cell_draw ?sc ?s1 sl = Inr s'" by blast
    with True that show ?thesis by simp
  next
    case False
    with that show ?thesis by simp
  qed
  from t cell_draw_returns obtain s3 where s3: "cell_draw ?tc s2 ?m = Inr s3" by blast
  have "draw_right h g scr =
          rbind (if sl \<noteq> 0
                 then rbind (cell_draw ?sc ?s1 sl) (\<lambda>scr. Inr (screen_draw scr '' ''))
                 else Inr ?s1)
            (\<lambda>s. cell_draw ?tc s ?m)"
    using assms tl sl by (simp add: draw_right_def Let_def del: screen_draw.simps)
  also have "\<dots> = Inr s3" by (simp only: s2 rbind_Inr s3)
  finally show ?thesis by blast
qed

text \<open>
  The flushing call returns when \<^verbatim>\<open>HOME\<close> is set, the accumulator holds the cells of the
  tabs seen so far, no tab of the frame has an empty title, the active index denotes a tab
  of the frame, and that tab's working directory has at least one part.
\<close>

lemma draw_tab_returns:
  assumes home: "HOME h = Some hm"
    and acc: "center g = map (get_tab_cell h) tabs"
    and titles: "\<forall>t' \<in> set (tabs @ [t]). title t' \<noteq> []"
    and active: "py_index (tabs @ [t]) (active_index (accumulate h g t index)) = Inr a"
    and wd: "Path (active_wd h (tab_id a)) \<noteq> []"
  shows "\<exists>g' scr' x. draw_tab h g scr t index True = Inr (g', scr', x)"
proof -
  let ?g = "accumulate h g t index"
  have cen: "center ?g = map (get_tab_cell h) (tabs @ [t])"
    by (simp add: center_accumulate acc)
  have ix: "py_index (center ?g) (active_index ?g) = Inr (get_tab_cell h a)"
    unfolding cen using active by (rule py_index_map)
  have tb: "c_tab (get_tab_cell h a) = Some a"
    by (simp add: get_tab_cell_def Cell_def Let_def)
  have lens: "\<forall>c \<in> set (center ?g). \<forall>w. \<exists>n. cell_length c w = Inr n"
    unfolding cen using titles tab_cell_length_returns by auto
  have wf: "\<forall>c \<in> set (center ?g). well_formed c"
    unfolding cen by auto
  have ne: "center ?g \<noteq> []" by (simp add: center_accumulate)
  from center_strategy_returns [OF ix lens, of scr] obtain strategy len where
    cs: "center_strategy ?g scr = Inr (strategy, len)" by (metis surj_pair)
  let ?start = "center_start_position scr len"
  from draw_left_returns [OF ix tb home wd, of scr "?start - 1"] obtain s1 where
    s1: "draw_left h ?g scr (?start - 1) = Inr s1" "columns s1 = columns scr" by blast
  from draw_center_advance [OF wf ne cs, of "s1\<lparr>cursor_x := ?start\<rparr>"] s1(2) obtain s2 where
    s2: "draw_center ?g (s1\<lparr>cursor_x := ?start\<rparr>) strategy = Inr s2" by auto
  from draw_right_returns [OF ix tb, of h "screen_draw s2 '' ''"] obtain s3 where
    s3: "draw_right h ?g (screen_draw s2 '' '') = Inr s3" by blast
  show ?thesis
    using cs s1(1) s2 s3 by (simp add: draw_tab_def Let_def)
qed

section \<open>The accumulator over a frame\<close>




section \<open>Tabs without a title\<close>

lemma sum_length_fails:
  "cell_length c w = Inl e \<Longrightarrow> \<exists>e'. sum_length w (cs @ [c]) acc = Inl e'"
proof (induction cs arbitrary: acc)
  case Nil
  then show ?case by simp
next
  case (Cons x xs)
  then show ?case by (cases "cell_length x w") simp_all
qed

text \<open>
  C10. For a tab whose title is the empty string \<^verbatim>\<open>get_tab\<close> raises \<^verbatim>\<open>IndexError\<close> whatever
  \<^verbatim>\<open>max_size\<close> is, and so do \<^verbatim>\<open>length\<close> and \<^verbatim>\<open>draw\<close> of the tab's cell; the flushing
  \<^verbatim>\<open>draw_tab\<close> call for such a tab does not return: at the drawing interface a non-empty
  title is a precondition.
\<close>

theorem get_tab_empty_title:
  "title t = [] \<Longrightarrow>
     get_tab h max_size (Some t) = Inl (Raise IndexError)
     \<and> cell_length (get_tab_cell h t) max_size = Inl (Raise IndexError)
     \<and> cell_draw (get_tab_cell h t) scr max_size = Inl (Raise IndexError)
     \<and> \<not> returns (draw_tab h g scr t index True)"
proof -
  assume e: "title t = []"
  have gt: "\<And>w. get_tab h w (Some t) = Inl (Raise IndexError)"
    using e by (simp add: get_tab_def py_index_def)
  have cl: "\<And>w. cell_length (get_tab_cell h t) w = Inl (Raise IndexError)"
    by (simp add: cell_length_def get_tab_cell_def Cell_def gt Let_def)
  have cd: "cell_draw (get_tab_cell h t) scr max_size = Inl (Raise IndexError)"
    by (simp add: cell_draw_def get_tab_cell_def Cell_def gt Let_def)
  from sum_length_fails [OF cl, of "columns scr" "center g" 0] obtain e' where
    "sum_length (columns scr) (center g @ [get_tab_cell h t]) 0 = Inl e'" by blast
  then have "center_strategy (accumulate h g t index) scr = Inl e'"
    by (simp add: center_strategy_def center_accumulate Let_def)
  then have "draw_tab h g scr t index True = Inl e'"
    by (simp add: draw_tab_def Let_def)
  with gt cl cd show ?thesis by (simp add: returns_def)
qed

theorem get_tab_empty_title_witness:
  "title tab_untitled = []
   \<and> get_tab example_host 10 (Some tab_untitled) = Inl (Raise IndexError)
   \<and> cell_length (get_tab_cell example_host tab_untitled) 10 = Inl (Raise IndexError)
   \<and> cell_draw (get_tab_cell example_host tab_untitled) example_screen 10 = Inl (Raise IndexError)
   \<and> \<not> returns (draw_tab example_host frame_before_last example_screen tab_untitled 3 True)"
  using get_tab_empty_title [of tab_untitled example_host 10 example_screen frame_before_last 3]
  by (simp add: tab_untitled_def)

end
